theory Spec2Isabelle
  imports Main "HOL-Library.Sublist"
begin

section \<open>The WebSocket proxy of src/websocket.ts\<close>

text \<open>
  The class \<open>WebSocketProxy\<close> bridges one child process (the agent) and the peers of a
  WebSocket server. Node runs every callback to completion on one thread, so the program
  is modelled as a state machine: one function per callback of the source, each taking
  the state and returning the new one, and a \<open>step\<close> function that dispatches an event to
  its callback. Every call the callbacks make on the outside world (a log line, a close,
  a send, a write to the agent's stdin, the exit of the process) is appended, in program
  order, to the \<open>trace\<close> field of the state.
\<close>

subsection \<open>Data\<close>

text \<open>
  A connection object of the \<open>ws\<close> library is named by a number; the server hands out a
  fresh one with each connection. A \<open>Buffer\<close> is a sequence of bytes.
\<close>

type_synonym conn = nat
type_synonym bytes = string

datatype ready_state = CONNECTING | OPEN | CLOSING | CLOSED

datatype signal = SIGINT | SIGTERM

text \<open>
  The lines the program prints. The two forwarding lines carry the payload they were
  computed from: the source prints \<open>JSON.stringify (JSON.parse text)\<close> when the payload
  parses and the raw text in the \<open>catch\<close> branch otherwise; both branches print one line
  and neither touches the payload that is forwarded, so the rendering is left out.
\<close>

datatype log_msg =
    Starting string nat
  | Running string nat
  | ClientConnected
  | ClosingExisting
  | ClientToAgent bytes
  | StdinNotWritable
  | ClientDisconnected
  | ClientError
  | ReceivedPong
  | ServerError
  | AgentToClient bytes
  | NoActiveClient
  | AgentExited "int option"
  | AgentErrorMsg
  | ShuttingDown
  | ReceivedSignal signal

datatype effect =
    Log log_msg
  | ConsoleError log_msg
  | ConsoleLog log_msg
  | SpawnAgent
  | Listen string nat
  | WsClose conn
  | WsSend conn bytes
  | WsPing conn
  | StdinWrite bytes
  | SetInterval conn
  | ClearInterval conn
  | ServerClose
  | AgentKill
  | ProcessExit int

text \<open>
  The field \<open>currentClient\<close> is the field of the class. The others are the parts of
  the objects the class holds that its callbacks read: \<open>clients\<close> is \<open>wss.clients\<close> (a
  JavaScript \<open>Set\<close>, iterated in insertion order), \<open>sockets\<close> gives the \<open>readyState\<close> of
  every connection object created so far, \<open>pingInterval\<close> gives, for a connection whose
  interval timer is armed, the time at which the timer fires next, \<open>now\<close> is the clock
  in milliseconds, \<open>nextConn\<close> is the name the next connection gets, \<open>stdin_exists\<close> and
  \<open>stdin_writable\<close> are \<open>agent.stdin\<close> and \<open>agent.stdin.writable\<close>, \<open>agent_running\<close>
  tells whether the child still runs, \<open>killed\<close> is \<open>agent.killed\<close>, and \<open>exited\<close> is the
  code \<open>process.exit\<close> was called with, if it was.
\<close>

record proxy_state =
  currentClient :: "conn option"
  clients :: "conn list"
  sockets :: "conn \<rightharpoonup> ready_state"
  pingInterval :: "conn \<rightharpoonup> nat"
  now :: nat
  nextConn :: conn
  stdin_exists :: bool
  stdin_writable :: bool
  agent_running :: bool
  killed :: bool
  exited :: "int option"
  trace :: "effect list"

text \<open>
  The options of the constructor; an absent option is \<open>None\<close>. \<open>debug\<close> only decides
  the \<open>ACP_DEBUG\<close> variable in the environment of the child, which is outside the
  model.
\<close>

record ProxyOptions =
  port :: "nat option"
  host :: "string option"
  debug :: "bool option"

datatype event =
    Connection
  | Message conn bytes
  | Close conn
  | WsError conn
  | Pong conn
  | Tick conn
  | Elapse nat
  | PeerClosing conn
  | WssError
  | AgentStdout bytes
  | AgentExit "int option"
  | AgentError
  | StdinClosed
  | Signal signal

subsection \<open>The calls on the outside world\<close>

definition emit :: "proxy_state \<Rightarrow> effect \<Rightarrow> proxy_state" where
  "emit s x = s\<lparr>trace := trace s @ [x]\<rparr>"

definition log :: "proxy_state \<Rightarrow> log_msg \<Rightarrow> proxy_state" where
  "log s m = emit s (Log m)"

text \<open>
  \<open>ws.close()\<close> of the library starts the closing handshake: an open connection becomes
  \<open>CLOSING\<close>; the \<open>close\<close> event comes later, as an event of its own. On a connection
  that is already closing or closed the call changes nothing.
\<close>

definition ws_close :: "proxy_state \<Rightarrow> conn \<Rightarrow> proxy_state" where
  "ws_close s c =
     emit (if sockets s c = Some OPEN then s\<lparr>sockets := (sockets s)(c \<mapsto> CLOSING)\<rparr> else s)
       (WsClose c)"

text \<open>
  \<open>agent.kill()\<close> sends the signal; Node sets \<open>agent.killed\<close> when the signal was
  delivered, which needs the child to be running.
\<close>

definition agent_kill :: "proxy_state \<Rightarrow> proxy_state" where
  "agent_kill s = emit (s\<lparr>killed := (killed s \<or> agent_running s)\<rparr>) AgentKill"

subsection \<open>The constructor\<close>

text \<open>The default of the constructor's parameter, \<open>{}\<close>: no option is given.\<close>

definition default_options :: ProxyOptions where
  "default_options = \<lparr>port = None, host = None, debug = None\<rparr>"

definition WebSocketProxy :: "ProxyOptions \<Rightarrow> proxy_state" where
  "WebSocketProxy options =
     (let p = (case port options of None \<Rightarrow> 8765 | Some n \<Rightarrow> n);
          h = (case host options of None \<Rightarrow> ''localhost'' | Some x \<Rightarrow> x)
      in \<lparr>currentClient = None, clients = [], sockets = Map.empty,
          pingInterval = Map.empty, now = 0, nextConn = 0,
          stdin_exists = True, stdin_writable = True, agent_running = True,
          killed = False, exited = None,
          trace = [Log (Starting h p), SpawnAgent, Listen h p, Log (Running h p)]\<rparr>)"

subsection \<open>The callbacks of setupWebSocketServer\<close>

text \<open>
  The connection callback, lines 50 to 100, in two parts. \<open>close_existing\<close> is lines 51
  to 57: the log line and the close of the connection \<open>currentClient\<close> holds.
  \<open>on_connection\<close> runs it, then assigns \<open>currentClient\<close> (line 59) and arms the
  interval timer (line 89). The four \<open>ws.on\<close> registrations are the dispatch of \<open>step\<close>.
\<close>

definition close_existing :: "proxy_state \<Rightarrow> proxy_state" where
  "close_existing s =
     (let s1 = log s ClientConnected
      in case currentClient s1 of
           None \<Rightarrow> s1
         | Some old \<Rightarrow> ws_close (log s1 ClosingExisting) old)"

text \<open>The period of the interval timer, line 95, in milliseconds.\<close>

definition ping_period :: nat where
  "ping_period = 30000"

definition set_interval :: "proxy_state \<Rightarrow> conn \<Rightarrow> proxy_state" where
  "set_interval s ws =
     emit (s\<lparr>pingInterval := (pingInterval s)(ws \<mapsto> now s + ping_period)\<rparr>) (SetInterval ws)"

definition on_connection :: "proxy_state \<Rightarrow> conn \<Rightarrow> proxy_state" where
  "on_connection s ws = set_interval ((close_existing s)\<lparr>currentClient := Some ws\<rparr>) ws"

definition on_message :: "proxy_state \<Rightarrow> conn \<Rightarrow> bytes \<Rightarrow> proxy_state" where
  "on_message s ws data =
     (let s1 = log s (ClientToAgent data)
      in if stdin_exists s1 \<and> stdin_writable s1
         then emit s1 (StdinWrite data)
         else log s1 StdinNotWritable)"

definition on_close :: "proxy_state \<Rightarrow> conn \<Rightarrow> proxy_state" where
  "on_close s ws =
     (let s1 = log s ClientDisconnected
      in if currentClient s1 = Some ws then s1\<lparr>currentClient := None\<rparr> else s1)"

definition on_error :: "proxy_state \<Rightarrow> conn \<Rightarrow> proxy_state" where
  "on_error s ws = emit s (ConsoleError ClientError)"

text \<open>The callback of the interval timer of connection \<open>ws\<close>, lines 89 to 95.\<close>

definition on_interval :: "proxy_state \<Rightarrow> conn \<Rightarrow> proxy_state" where
  "on_interval s ws =
     (if sockets s ws = Some OPEN
      then emit s (WsPing ws)
      else emit (s\<lparr>pingInterval := (pingInterval s)(ws := None)\<rparr>) (ClearInterval ws))"

definition on_pong :: "proxy_state \<Rightarrow> conn \<Rightarrow> proxy_state" where
  "on_pong s ws = log s ReceivedPong"

definition on_server_error :: "proxy_state \<Rightarrow> proxy_state" where
  "on_server_error s = emit s (ConsoleError ServerError)"

subsection \<open>shutdown and the callbacks of setupAgentListeners\<close>

text \<open>
  \<open>shutdown\<close>, lines 139 to 158. The callback given to \<open>wss.close\<close> would log once the
  server has closed; the library calls it on a later tick, and \<open>process.exit\<close> ends the
  process before that, so it has no part here.
\<close>

definition shutdown :: "proxy_state \<Rightarrow> int \<Rightarrow> proxy_state" where
  "shutdown s exitCode =
     (let s1 = log s ShuttingDown;
          s2 = foldl ws_close s1 (clients s1);
          s3 = emit s2 ServerClose;
          s4 = (if \<not> killed s3 then agent_kill s3 else s3)
      in emit (s4\<lparr>exited := Some exitCode\<rparr>) (ProcessExit exitCode))"

definition on_stdout_data :: "proxy_state \<Rightarrow> bytes \<Rightarrow> proxy_state" where
  "on_stdout_data s data =
     (let s1 = log s (AgentToClient data)
      in case currentClient s1 of
           None \<Rightarrow> log s1 NoActiveClient
         | Some c \<Rightarrow>
             if sockets s1 c = Some OPEN then emit s1 (WsSend c data)
             else log s1 NoActiveClient)"

text \<open>
  \<open>code || 0\<close>: JavaScript's \<open>||\<close> gives its right operand when the left one is falsy,
  which for an exit code (a number or \<open>null\<close>) means \<open>null\<close> or \<open>0\<close>.
\<close>

definition or_zero :: "int option \<Rightarrow> int" where
  "or_zero code = (case code of None \<Rightarrow> 0 | Some n \<Rightarrow> if n = 0 then 0 else n)"

definition on_agent_exit :: "proxy_state \<Rightarrow> int option \<Rightarrow> proxy_state" where
  "on_agent_exit s code = shutdown (emit s (ConsoleError (AgentExited code))) (or_zero code)"

definition on_agent_error :: "proxy_state \<Rightarrow> proxy_state" where
  "on_agent_error s = shutdown (emit s (ConsoleError AgentErrorMsg)) 1"

text \<open>The two signal handlers of the command-line entry point, lines 169 to 177.\<close>

definition on_signal :: "proxy_state \<Rightarrow> signal \<Rightarrow> proxy_state" where
  "on_signal s sg = shutdown (emit s (ConsoleLog (ReceivedSignal sg))) 0"

subsection \<open>The event loop\<close>

text \<open>
  What the libraries do to the objects before they call a callback: the server adds a
  new open connection to \<open>wss.clients\<close>; a connection that closes becomes \<open>CLOSED\<close> and
  leaves \<open>wss.clients\<close>; a child that exits no longer runs; an interval timer that
  fires is armed again one period later, before its callback runs. \<open>PeerClosing\<close> (the
  peer starts the closing handshake), \<open>StdinClosed\<close> (the agent's stdin stops being
  writable) and \<open>Elapse\<close> (time passes) change the state and call no callback of the
  program.
\<close>

definition accept :: "proxy_state \<Rightarrow> proxy_state" where
  "accept s =
     s\<lparr>clients := clients s @ [nextConn s],
       sockets := (sockets s)(nextConn s \<mapsto> OPEN),
       nextConn := Suc (nextConn s)\<rparr>"

definition socket_closed :: "proxy_state \<Rightarrow> conn \<Rightarrow> proxy_state" where
  "socket_closed s c =
     s\<lparr>clients := removeAll c (clients s), sockets := (sockets s)(c \<mapsto> CLOSED)\<rparr>"

definition rearm :: "proxy_state \<Rightarrow> conn \<Rightarrow> proxy_state" where
  "rearm s c = s\<lparr>pingInterval := (pingInterval s)(c \<mapsto> now s + ping_period)\<rparr>"

text \<open>
  An event can happen only while the process runs (\<open>process.exit\<close> has not been called);
  an event of a connection needs that connection to exist and, but for an error, not to
  be closed yet; a child exits once; a timer fires while it is armed, at the time it is
  due or later.
\<close>

definition live :: "proxy_state \<Rightarrow> conn \<Rightarrow> bool" where
  "live s c = (sockets s c = Some OPEN \<or> sockets s c = Some CLOSING)"

fun enabled :: "proxy_state \<Rightarrow> event \<Rightarrow> bool" where
  "enabled s Connection = (exited s = None)"
| "enabled s (Message c d) = (exited s = None \<and> live s c)"
| "enabled s (Close c) = (exited s = None \<and> live s c)"
| "enabled s (WsError c) = (exited s = None \<and> sockets s c \<noteq> None)"
| "enabled s (Pong c) = (exited s = None \<and> live s c)"
| "enabled s (Tick c) =
     (exited s = None \<and> (case pingInterval s c of None \<Rightarrow> False | Some t \<Rightarrow> t \<le> now s))"
| "enabled s (Elapse dt) = (exited s = None)"
| "enabled s (PeerClosing c) = (exited s = None \<and> sockets s c = Some OPEN)"
| "enabled s WssError = (exited s = None)"
| "enabled s (AgentStdout d) = (exited s = None)"
| "enabled s (AgentExit code) = (exited s = None \<and> agent_running s)"
| "enabled s AgentError = (exited s = None)"
| "enabled s StdinClosed = (exited s = None)"
| "enabled s (Signal sg) = (exited s = None)"

fun handle :: "proxy_state \<Rightarrow> event \<Rightarrow> proxy_state" where
  "handle s Connection = on_connection (accept s) (nextConn s)"
| "handle s (Message c d) = on_message s c d"
| "handle s (Close c) = on_close (socket_closed s c) c"
| "handle s (WsError c) = on_error s c"
| "handle s (Pong c) = on_pong s c"
| "handle s (Tick c) = on_interval (rearm s c) c"
| "handle s (Elapse dt) = s\<lparr>now := now s + dt\<rparr>"
| "handle s (PeerClosing c) = s\<lparr>sockets := (sockets s)(c \<mapsto> CLOSING)\<rparr>"
| "handle s WssError = on_server_error s"
| "handle s (AgentStdout d) = on_stdout_data s d"
| "handle s (AgentExit code) = on_agent_exit (s\<lparr>agent_running := False\<rparr>) code"
| "handle s AgentError = on_agent_error s"
| "handle s StdinClosed = s\<lparr>stdin_writable := False\<rparr>"
| "handle s (Signal sg) = on_signal s sg"

definition step :: "proxy_state \<Rightarrow> event \<Rightarrow> proxy_state" where
  "step s e = (if enabled s e then handle s e else s)"

fun run :: "proxy_state \<Rightarrow> event list \<Rightarrow> proxy_state" where
  "run s [] = s"
| "run s (e # es) = run (step s e) es"

text \<open>
  Timers are punctual in a run when the clock never passes the time an armed timer is
  due before that timer has fired: \<open>no_timer_overdue s dt\<close> tells that \<open>dt\<close> milliseconds
  can pass in state \<open>s\<close> without that.
\<close>

definition no_timer_overdue :: "proxy_state \<Rightarrow> nat \<Rightarrow> bool" where
  "no_timer_overdue s dt =
     list_all (\<lambda>c. case pingInterval s c of None \<Rightarrow> True | Some t \<Rightarrow> now s + dt \<le> t)
       [0..<nextConn s]"

fun on_time :: "proxy_state \<Rightarrow> event \<Rightarrow> bool" where
  "on_time s (Elapse dt) = no_timer_overdue s dt"
| "on_time s e = True"

fun punctual :: "proxy_state \<Rightarrow> event list \<Rightarrow> bool" where
  "punctual s [] = True"
| "punctual s (e # es) = (on_time s e \<and> punctual (step s e) es)"

subsection \<open>Reading the state and the trace\<close>

text \<open>The sessions that are Active: the one \<open>currentClient\<close> holds, if it holds one.\<close>

definition active_sessions :: "proxy_state \<Rightarrow> conn set" where
  "active_sessions s = (case currentClient s of None \<Rightarrow> {} | Some c \<Rightarrow> {c})"

fun stdin_writes :: "effect list \<Rightarrow> bytes list" where
  "stdin_writes [] = []"
| "stdin_writes (StdinWrite d # t) = d # stdin_writes t"
| "stdin_writes (x # t) = stdin_writes t"

fun ws_sends :: "effect list \<Rightarrow> (conn \<times> bytes) list" where
  "ws_sends [] = []"
| "ws_sends (WsSend c d # t) = (c, d) # ws_sends t"
| "ws_sends (x # t) = ws_sends t"

fun pings :: "conn \<Rightarrow> effect list \<Rightarrow> nat" where
  "pings c [] = 0"
| "pings c (WsPing c' # t) = (if c' = c then Suc (pings c t) else pings c t)"
| "pings c (x # t) = pings c t"

fun message_payloads :: "event list \<Rightarrow> bytes list" where
  "message_payloads [] = []"
| "message_payloads (Message c d # es) = d # message_payloads es"
| "message_payloads (e # es) = message_payloads es"

fun stdout_chunks :: "event list \<Rightarrow> bytes list" where
  "stdout_chunks [] = []"
| "stdout_chunks (AgentStdout d # es) = d # stdout_chunks es"
| "stdout_chunks (e # es) = stdout_chunks es"

text \<open>
  What a run has to send to peers: an event sends something only when it is a chunk of
  agent output arriving while the process runs, and then the chunk goes to the session
  that is Active at that moment, if its connection is open.
\<close>

fun chunk_sends :: "proxy_state \<Rightarrow> event \<Rightarrow> (conn \<times> bytes) list" where
  "chunk_sends s (AgentStdout d) =
     (case currentClient s of
        None \<Rightarrow> []
      | Some c \<Rightarrow> if exited s = None \<and> sockets s c = Some OPEN then [(c, d)] else [])"
| "chunk_sends s e = []"

fun forwarded :: "proxy_state \<Rightarrow> event list \<Rightarrow> (conn \<times> bytes) list" where
  "forwarded s [] = []"
| "forwarded s (e # es) = chunk_sends s e @ forwarded (step s e) es"

text \<open>What was sent to peers, and written to the agent, between a state and a later one.\<close>

definition sends_since :: "proxy_state \<Rightarrow> proxy_state \<Rightarrow> (conn \<times> bytes) list" where
  "sends_since s s' = drop (length (ws_sends (trace s))) (ws_sends (trace s'))"

definition writes_since :: "proxy_state \<Rightarrow> proxy_state \<Rightarrow> bytes list" where
  "writes_since s s' = drop (length (stdin_writes (trace s))) (stdin_writes (trace s'))"

text \<open>
  The events during which the session of peer \<open>c\<close> goes on with a writable stdin: \<open>c\<close>
  does not disconnect, the messages are those of \<open>c\<close>, the agent's stdin does not close
  and the proxy is not shut down.
\<close>

fun during_session :: "conn \<Rightarrow> event \<Rightarrow> bool" where
  "during_session c (Message c' d) = (c' = c)"
| "during_session c (Close c') = (c' \<noteq> c)"
| "during_session c StdinClosed = False"
| "during_session c (AgentExit code) = False"
| "during_session c AgentError = False"
| "during_session c (Signal sg) = False"
| "during_session c e = True"

text \<open>
  Two invariants used in the proofs. \<open>timers_ok\<close>: every connection and every armed timer
  belongs to a connection already made, and an armed timer is due within one period.
  \<open>closed_timer\<close>: connection \<open>c\<close> is closed and, while its timer is still armed, neither
  the time the timer is due nor the clock has passed \<open>b\<close>.
\<close>

definition timers_ok :: "proxy_state \<Rightarrow> bool" where
  "timers_ok s =
     (\<forall>c. (sockets s c \<noteq> None \<longrightarrow> c < nextConn s)
        \<and> (\<forall>t. pingInterval s c = Some t \<longrightarrow>
               c < nextConn s \<and> t \<le> now s + ping_period))"

definition closed_timer :: "conn \<Rightarrow> nat \<Rightarrow> proxy_state \<Rightarrow> bool" where
  "closed_timer c b s =
     (sockets s c = Some CLOSED \<and> c < nextConn s
      \<and> (case pingInterval s c of None \<Rightarrow> True | Some t \<Rightarrow> t \<le> b \<and> now s \<le> b))"

lemmas call_defs =
  emit_def log_def ws_close_def agent_kill_def set_interval_def ping_period_def

lemmas env_defs = accept_def socket_closed_def rearm_def

lemmas callback_defs =
  close_existing_def on_connection_def on_message_def on_close_def on_error_def
  on_interval_def on_pong_def on_server_error_def on_stdout_data_def
  on_agent_exit_def on_agent_error_def on_signal_def

lemmas eval_defs =
  step_def WebSocketProxy_def default_options_def callback_defs call_defs env_defs no_timer_overdue_def
  shutdown_def or_zero_def live_def Let_def

section \<open>Lemmas\<close>

subsection \<open>Reading a trace in parts\<close>

lemma stdin_writes_append: "stdin_writes (t @ u) = stdin_writes t @ stdin_writes u"
  by (induction t rule: stdin_writes.induct) simp_all

lemma ws_sends_append: "ws_sends (t @ u) = ws_sends t @ ws_sends u"
  by (induction t rule: ws_sends.induct) simp_all

lemma pings_append: "pings c (t @ u) = pings c t + pings c u"
  by (induction c t rule: pings.induct) simp_all

lemma stdin_writes_WsClose [simp]: "stdin_writes (map WsClose cs) = []"
  by (induction cs) simp_all

lemma ws_sends_WsClose [simp]: "ws_sends (map WsClose cs) = []"
  by (induction cs) simp_all

lemma pings_WsClose [simp]: "pings c (map WsClose cs) = 0"
  by (induction cs) simp_all

lemma message_payloads_Cons:
  "message_payloads (e # es) = message_payloads [e] @ message_payloads es"
  by (cases e) simp_all

subsection \<open>Closing every client\<close>

lemma foldl_ws_close_trace: "trace (foldl ws_close s cs) = trace s @ map WsClose cs"
  by (induction cs arbitrary: s) (simp_all add: ws_close_def emit_def)

lemma foldl_ws_close_fields [simp]:
  "currentClient (foldl ws_close s cs) = currentClient s"
  "clients (foldl ws_close s cs) = clients s"
  "killed (foldl ws_close s cs) = killed s"
  "agent_running (foldl ws_close s cs) = agent_running s"
  "pingInterval (foldl ws_close s cs) = pingInterval s"
  "now (foldl ws_close s cs) = now s"
  "nextConn (foldl ws_close s cs) = nextConn s"
  "exited (foldl ws_close s cs) = exited s"
  "stdin_exists (foldl ws_close s cs) = stdin_exists s"
  "stdin_writable (foldl ws_close s cs) = stdin_writable s"
  by (induction cs arbitrary: s) (simp_all add: ws_close_def emit_def)

lemma ws_close_sockets_OPEN:
  "(sockets (ws_close s c') c = Some OPEN) = (sockets s c = Some OPEN \<and> c \<noteq> c')"
  by (auto simp add: ws_close_def emit_def)

lemma ws_close_sockets_CLOSED:
  "(sockets (ws_close s c') c = Some CLOSED) = (sockets s c = Some CLOSED)"
  by (auto simp add: ws_close_def emit_def)

lemma ws_close_sockets_None: "(sockets (ws_close s c') c = None) = (sockets s c = None)"
  by (auto simp add: ws_close_def emit_def)

lemma live_ws_close [simp]: "live (ws_close s c') c = live s c"
  by (simp add: live_def ws_close_def emit_def)

lemma foldl_ws_close_sockets_OPEN:
  "(sockets (foldl ws_close s cs) c = Some OPEN) = (sockets s c = Some OPEN \<and> c \<notin> set cs)"
  by (induction cs arbitrary: s) (auto simp add: ws_close_sockets_OPEN)

lemma foldl_ws_close_sockets_CLOSED:
  "(sockets (foldl ws_close s cs) c = Some CLOSED) = (sockets s c = Some CLOSED)"
  by (induction cs arbitrary: s) (simp_all add: ws_close_sockets_CLOSED)

lemma foldl_ws_close_sockets_None:
  "(sockets (foldl ws_close s cs) c = None) = (sockets s c = None)"
  by (induction cs arbitrary: s) (simp_all add: ws_close_sockets_None)

lemma foldl_ws_close_live [simp]: "live (foldl ws_close s cs) c = live s c"
  by (induction cs arbitrary: s) simp_all

subsection \<open>shutdown\<close>

lemma shutdown_fields [simp]:
  "currentClient (shutdown s n) = currentClient s"
  "clients (shutdown s n) = clients s"
  "exited (shutdown s n) = Some n"
  "pingInterval (shutdown s n) = pingInterval s"
  "now (shutdown s n) = now s"
  "nextConn (shutdown s n) = nextConn s"
  "stdin_exists (shutdown s n) = stdin_exists s"
  "stdin_writable (shutdown s n) = stdin_writable s"
  by (simp_all add: shutdown_def Let_def call_defs)

lemma shutdown_killed: "killed (shutdown s n) = (killed s \<or> agent_running s)"
  by (simp add: shutdown_def Let_def call_defs)

lemma shutdown_trace:
  "trace (shutdown s n) =
     trace s @ [Log ShuttingDown] @ map WsClose (clients s) @ [ServerClose]
       @ (if killed s then [] else [AgentKill]) @ [ProcessExit n]"
  by (simp add: shutdown_def Let_def call_defs foldl_ws_close_trace)

lemma last_shutdown_trace [simp]: "last (trace (shutdown s n)) = ProcessExit n"
  by (simp add: shutdown_trace)

lemma shutdown_reads [simp]:
  "stdin_writes (trace (shutdown s n)) = stdin_writes (trace s)"
  "ws_sends (trace (shutdown s n)) = ws_sends (trace s)"
  "pings c (trace (shutdown s n)) = pings c (trace s)"
  by (simp_all add: shutdown_trace stdin_writes_append ws_sends_append pings_append)

lemma shutdown_sockets_OPEN:
  "(sockets (shutdown s n) c = Some OPEN) = (sockets s c = Some OPEN \<and> c \<notin> set (clients s))"
  using foldl_ws_close_sockets_OPEN [of "log s ShuttingDown" "clients s" c]
  by (simp add: shutdown_def Let_def call_defs)

lemma shutdown_sockets_CLOSED:
  "(sockets (shutdown s n) c = Some CLOSED) = (sockets s c = Some CLOSED)"
  using foldl_ws_close_sockets_CLOSED [of "log s ShuttingDown" "clients s" c]
  by (simp add: shutdown_def Let_def call_defs)

lemma shutdown_sockets_None: "(sockets (shutdown s n) c = None) = (sockets s c = None)"
  using foldl_ws_close_sockets_None [of "log s ShuttingDown" "clients s" c]
  by (simp add: shutdown_def Let_def call_defs)

lemma shutdown_live [simp]: "live (shutdown s n) c = live s c"
  using foldl_ws_close_live [of "log s ShuttingDown" "clients s" c]
  by (simp add: shutdown_def Let_def call_defs live_def)

lemma or_zero_simps [simp]: "or_zero (Some n) = n" "or_zero None = 0"
  by (simp_all add: or_zero_def)

subsection \<open>What one callback does to each part of the state\<close>

lemma handle_currentClient:
  "currentClient (handle s e) =
     (case e of
        Connection \<Rightarrow> Some (nextConn s)
      | Close c \<Rightarrow> (if currentClient s = Some c then None else currentClient s)
      | _ \<Rightarrow> currentClient s)"
  by (cases e) (simp_all add: callback_defs call_defs env_defs Let_def split: option.split)

lemma handle_exited:
  "exited (handle s e) =
     (case e of
        AgentExit code \<Rightarrow> Some (or_zero code)
      | AgentError \<Rightarrow> Some 1
      | Signal sg \<Rightarrow> Some 0
      | _ \<Rightarrow> exited s)"
  by (cases e) (simp_all add: callback_defs call_defs env_defs Let_def split: option.split)

lemma handle_killed:
  "killed (handle s e) =
     (case e of
        AgentError \<Rightarrow> killed s \<or> agent_running s
      | Signal sg \<Rightarrow> killed s \<or> agent_running s
      | _ \<Rightarrow> killed s)"
  by (cases e)
    (simp_all add: callback_defs call_defs env_defs Let_def shutdown_killed split: option.split)

lemma handle_stdin:
  "stdin_exists (handle s e) = stdin_exists s"
  "stdin_writable (handle s e) = (e \<noteq> StdinClosed \<and> stdin_writable s)"
  by (cases e; simp add: callback_defs call_defs env_defs Let_def split: option.split)+

lemma handle_nextConn:
  "nextConn (handle s e) = (case e of Connection \<Rightarrow> Suc (nextConn s) | _ \<Rightarrow> nextConn s)"
  by (cases e) (simp_all add: callback_defs call_defs env_defs Let_def split: option.split)

lemma handle_now:
  "now (handle s e) = (case e of Elapse dt \<Rightarrow> now s + dt | _ \<Rightarrow> now s)"
  by (cases e) (simp_all add: callback_defs call_defs env_defs Let_def split: option.split)

lemma handle_pingInterval:
  "pingInterval (handle s e) =
     (case e of
        Connection \<Rightarrow> (pingInterval s)(nextConn s \<mapsto> now s + ping_period)
      | Tick c \<Rightarrow>
          if sockets s c = Some OPEN then (pingInterval s)(c \<mapsto> now s + ping_period)
          else (pingInterval s)(c := None)
      | _ \<Rightarrow> pingInterval s)"
  by (cases e) (simp_all add: callback_defs call_defs env_defs Let_def split: option.split)

lemma handle_ws_sends:
  "ws_sends (trace (handle s e)) =
     ws_sends (trace s) @
     (case e of
        AgentStdout d \<Rightarrow>
          (case currentClient s of
             None \<Rightarrow> []
           | Some c \<Rightarrow> if sockets s c = Some OPEN then [(c, d)] else [])
      | _ \<Rightarrow> [])"
  by (cases e)
    (simp_all add: callback_defs call_defs env_defs Let_def ws_sends_append split: option.split)

lemma handle_stdin_writes:
  "stdin_writes (trace (handle s e)) =
     stdin_writes (trace s) @
     (case e of
        Message c d \<Rightarrow> if stdin_exists s \<and> stdin_writable s then [d] else []
      | _ \<Rightarrow> [])"
  by (cases e)
    (simp_all add: callback_defs call_defs env_defs Let_def stdin_writes_append
      split: option.split)

lemma handle_pings:
  "pings c (trace (handle s e)) =
     pings c (trace s) +
     (case e of
        Tick c' \<Rightarrow> if c' = c \<and> sockets s c = Some OPEN then 1 else 0
      | _ \<Rightarrow> 0)"
  by (cases e)
    (auto simp add: callback_defs call_defs env_defs Let_def pings_append split: option.split)

lemma handle_live: "e \<noteq> Close c \<Longrightarrow> live s c \<Longrightarrow> live (handle s e) c"
proof (cases e)
  case (AgentExit code)
  assume "live s c"
  then have "live (emit (s\<lparr>agent_running := False\<rparr>) (ConsoleError (AgentExited code))) c"
    by (simp add: live_def emit_def)
  with AgentExit show ?thesis by (simp add: on_agent_exit_def)
next
  case AgentError
  assume "live s c"
  then have "live (emit s (ConsoleError AgentErrorMsg)) c"
    by (simp add: live_def emit_def)
  with AgentError show ?thesis by (simp add: on_agent_error_def)
next
  case (Signal sg)
  assume "live s c"
  then have "live (emit s (ConsoleLog (ReceivedSignal sg))) c"
    by (simp add: live_def emit_def)
  with Signal show ?thesis by (simp add: on_signal_def)
qed (auto simp add: callback_defs call_defs env_defs Let_def live_def split: option.split)

lemma handle_sockets_CLOSED:
  "sockets s c = Some CLOSED \<Longrightarrow> c < nextConn s \<Longrightarrow> enabled s e \<Longrightarrow>
   sockets (handle s e) c = Some CLOSED"
  by (cases e)
    (auto simp add: callback_defs call_defs env_defs Let_def shutdown_sockets_CLOSED
      split: option.split)

lemma handle_sockets_None:
  "sockets s c = None \<Longrightarrow> enabled s e \<Longrightarrow> e \<noteq> Connection \<or> c \<noteq> nextConn s \<Longrightarrow>
   sockets (handle s e) c = None"
  by (cases e)
    (auto simp add: callback_defs call_defs env_defs Let_def shutdown_sockets_None live_def
      split: option.split)

subsection \<open>Steps and runs\<close>

lemma step_exited: "exited s \<noteq> None \<Longrightarrow> step s e = s"
  by (cases e) (auto simp: step_def)

lemma run_exited: "exited s \<noteq> None \<Longrightarrow> run s es = s"
  by (induction es) (simp_all add: step_exited)

lemma active_sessions_card: "card (active_sessions s) \<le> 1"
  by (simp add: active_sessions_def split: option.split)

text \<open>
  The connection \<open>currentClient\<close> holds is one of \<open>wss.clients\<close>: a step keeps that, since
  the close callback of the connection that leaves \<open>wss.clients\<close> clears the reference
  to it.
\<close>

lemma step_active_clients:
  assumes "active_sessions s \<subseteq> set (clients s)"
  shows "active_sessions (step s e) \<subseteq> set (clients (step s e))"
proof (cases "enabled s e")
  case False
  then show ?thesis using assms by (simp add: step_def)
next
  case True
  have "active_sessions (handle s e) \<subseteq> set (clients (handle s e))"
    using assms
    by (cases e)
      (auto simp: active_sessions_def callback_defs call_defs env_defs Let_def
        split: option.splits if_splits)
  with True show ?thesis by (simp add: step_def)
qed

lemma run_active_clients:
  "active_sessions s \<subseteq> set (clients s) \<Longrightarrow>
   active_sessions (run s es) \<subseteq> set (clients (run s es))"
  by (induction es arbitrary: s) (simp_all add: step_active_clients)

lemma init_active_clients:
  "active_sessions (WebSocketProxy options) \<subseteq> set (clients (WebSocketProxy options))"
  by (simp add: WebSocketProxy_def active_sessions_def Let_def)

lemma step_keeps_current:
  "e \<noteq> Connection \<Longrightarrow> e \<noteq> Close c \<Longrightarrow> currentClient s = Some c \<Longrightarrow>
   currentClient (step s e) = Some c"
  by (cases e) (simp_all add: step_def handle_currentClient del: handle.simps)

lemma run_keeps_current:
  "Connection \<notin> set es \<Longrightarrow> Close c \<notin> set es \<Longrightarrow> currentClient s = Some c \<Longrightarrow>
   currentClient (run s es) = Some c"
proof (induction es arbitrary: s)
  case Nil
  then show ?case by simp
next
  case (Cons e es)
  from Cons.prems have "currentClient (step s e) = Some c"
    by (intro step_keeps_current) auto
  with Cons show ?case by simp
qed

lemma step_Connection:
  "exited s = None \<Longrightarrow>
   step s Connection =
     set_interval ((close_existing (accept s))\<lparr>currentClient := Some (nextConn s)\<rparr>) (nextConn s)"
  by (simp add: step_def on_connection_def)

lemma step_Connection_current:
  "exited s = None \<Longrightarrow> currentClient (step s Connection) = Some (nextConn s)"
  by (simp add: step_def handle_currentClient del: handle.simps)

lemma step_current_cases:
  "e \<noteq> Connection \<Longrightarrow> currentClient s = None \<or> currentClient s = Some c \<Longrightarrow>
   currentClient (step s e) = None \<or> currentClient (step s e) = Some c"
  by (cases e) (auto simp add: step_def handle_currentClient simp del: handle.simps)

subsection \<open>Output of the agent\<close>

lemma step_ws_sends:
  "ws_sends (trace (step s e)) =
     ws_sends (trace s) @
     (case e of
        AgentStdout d \<Rightarrow>
          (case currentClient s of
             None \<Rightarrow> []
           | Some c \<Rightarrow> if exited s = None \<and> sockets s c = Some OPEN then [(c, d)] else [])
      | _ \<Rightarrow> [])"
  by (cases e) (simp_all add: step_def handle_ws_sends split: option.split del: handle.simps)

lemma step_sends_one:
  "\<exists>one. ws_sends (trace (step s e)) = ws_sends (trace s) @ one
         \<and> subseq (map snd one) (stdout_chunks [e])
         \<and> (currentClient s = None \<or> currentClient s = Some c \<longrightarrow> fst ` set one \<subseteq> {c})"
proof (cases e)
  case (AgentStdout d)
  let ?one = "case currentClient s of None \<Rightarrow> []
    | Some c \<Rightarrow> if exited s = None \<and> sockets s c = Some OPEN then [(c, d)] else []"
  have "ws_sends (trace (step s e)) = ws_sends (trace s) @ ?one"
    using AgentStdout by (simp add: step_ws_sends)
  moreover have "subseq (map snd ?one) (stdout_chunks [e])"
    using AgentStdout by (simp split: option.split)
  moreover have "currentClient s = None \<or> currentClient s = Some c \<longrightarrow> fst ` set ?one \<subseteq> {c}"
    by (auto split: option.split)
  ultimately show ?thesis by blast
qed (simp_all add: step_ws_sends)

lemma stdout_chunks_Cons: "stdout_chunks (e # es) = stdout_chunks [e] @ stdout_chunks es"
  by (cases e) simp_all

lemma run_sends_prefix:
  "\<exists>sub. ws_sends (trace (run s es)) = ws_sends (trace s) @ sub
         \<and> subseq (map snd sub) (stdout_chunks es)
         \<and> (Connection \<notin> set es \<longrightarrow> currentClient s = None \<or> currentClient s = Some c \<longrightarrow>
              fst ` set sub \<subseteq> {c})"
proof (induction es arbitrary: s)
  case Nil
  then show ?case by simp
next
  case (Cons e es)
  obtain sub where sub: "ws_sends (trace (run (step s e) es)) = ws_sends (trace (step s e)) @ sub"
      "subseq (map snd sub) (stdout_chunks es)"
      "Connection \<notin> set es \<longrightarrow>
       currentClient (step s e) = None \<or> currentClient (step s e) = Some c \<longrightarrow>
       fst ` set sub \<subseteq> {c}"
    using Cons.IH [of "step s e"] by blast
  obtain one where one: "ws_sends (trace (step s e)) = ws_sends (trace s) @ one"
      "subseq (map snd one) (stdout_chunks [e])"
      "currentClient s = None \<or> currentClient s = Some c \<longrightarrow> fst ` set one \<subseteq> {c}"
    using step_sends_one [of s e c] by blast
  have "subseq (map snd (one @ sub)) (stdout_chunks (e # es))"
    using one(2) sub(2) by (subst stdout_chunks_Cons) (simp add: list_emb_append_mono)
  moreover have "fst ` set (one @ sub) \<subseteq> {c}"
    if "Connection \<notin> set (e # es)" "currentClient s = None \<or> currentClient s = Some c"
  proof -
    from that have "currentClient (step s e) = None \<or> currentClient (step s e) = Some c"
      by (intro step_current_cases) auto
    with that sub(3) one(3) show ?thesis by auto
  qed
  ultimately show ?case
    using sub(1) one(1) by (intro exI [of _ "one @ sub"]) simp
qed

lemma sends_since_run:
  "subseq (map snd (sends_since s (run s es))) (stdout_chunks es)"
  "Connection \<notin> set es \<Longrightarrow> currentClient s = None \<or> currentClient s = Some c \<Longrightarrow>
   fst ` set (sends_since s (run s es)) \<subseteq> {c}"
proof -
  obtain sub where sub: "ws_sends (trace (run s es)) = ws_sends (trace s) @ sub"
      "subseq (map snd sub) (stdout_chunks es)"
      "Connection \<notin> set es \<longrightarrow> currentClient s = None \<or> currentClient s = Some c \<longrightarrow>
       fst ` set sub \<subseteq> {c}"
    using run_sends_prefix [of s es c] by blast
  have eq: "sends_since s (run s es) = sub"
    by (simp add: sends_since_def sub(1))
  show "subseq (map snd (sends_since s (run s es))) (stdout_chunks es)"
    using sub(2) by (simp add: eq)
  show "fst ` set (sends_since s (run s es)) \<subseteq> {c}"
    if "Connection \<notin> set es" "currentClient s = None \<or> currentClient s = Some c"
    using sub(3) that by (simp add: eq)
qed

lemma step_chunk_sends: "ws_sends (trace (step s e)) = ws_sends (trace s) @ chunk_sends s e"
  by (cases e) (simp_all add: step_ws_sends)

lemma run_forwarded: "ws_sends (trace (run s es)) = ws_sends (trace s) @ forwarded s es"
  by (induction es arbitrary: s) (simp_all add: step_chunk_sends)

lemma sends_since_forwarded: "sends_since s (run s es) = forwarded s es"
  by (simp add: sends_since_def run_forwarded)

lemma step_AgentStdout: "exited s = None \<Longrightarrow> step s (AgentStdout d) = on_stdout_data s d"
  by (simp add: step_def)

lemma on_stdout_data_eq:
  "on_stdout_data s d =
     s\<lparr>trace := trace s @
        [Log (AgentToClient d),
         case currentClient s of
           None \<Rightarrow> Log NoActiveClient
         | Some c \<Rightarrow> if sockets s c = Some OPEN then WsSend c d else Log NoActiveClient]\<rparr>"
  by (simp add: on_stdout_data_def log_def emit_def Let_def split: option.split)

lemma close_existing_Some:
  "currentClient s = Some old \<Longrightarrow>
   close_existing s =
     (if sockets s old = Some OPEN then s\<lparr>sockets := (sockets s)(old \<mapsto> CLOSING)\<rparr> else s)
       \<lparr>trace := trace s @ [Log ClientConnected, Log ClosingExisting, WsClose old]\<rparr>"
  by (simp add: close_existing_def call_defs Let_def)

subsection \<open>Input of the agent\<close>

lemma on_message_eq:
  "on_message s ws d =
     s\<lparr>trace := trace s @
        [Log (ClientToAgent d),
         if stdin_exists s \<and> stdin_writable s then StdinWrite d else Log StdinNotWritable]\<rparr>"
  by (simp add: on_message_def log_def emit_def Let_def)

lemma step_during_session:
  assumes "during_session c e" "exited s = None" "stdin_exists s" "stdin_writable s" "live s c"
  shows "exited (step s e) = None \<and> stdin_exists (step s e) \<and> stdin_writable (step s e)
       \<and> live (step s e) c
       \<and> stdin_writes (trace (step s e)) = stdin_writes (trace s) @ message_payloads [e]"
proof (cases "enabled s e")
  case True
  then have "step s e = handle s e" by (simp add: step_def)
  moreover have "e \<noteq> Close c" "e \<noteq> StdinClosed" using assms(1) by auto
  moreover have "exited (handle s e) = None"
    using assms(1,2) by (cases e) (simp_all add: handle_exited del: handle.simps)
  moreover have "stdin_writes (trace (handle s e)) = stdin_writes (trace s) @ message_payloads [e]"
    using assms(3,4) by (cases e) (simp_all add: handle_stdin_writes del: handle.simps)
  ultimately show ?thesis
    using assms by (simp add: handle_stdin handle_live del: handle.simps)
next
  case False
  then have "message_payloads [e] = []"
    using assms by (cases e) simp_all
  with False assms show ?thesis by (simp add: step_def)
qed

lemma run_during_session:
  "list_all (during_session c) es \<Longrightarrow> exited s = None \<Longrightarrow> stdin_exists s \<Longrightarrow>
   stdin_writable s \<Longrightarrow> live s c \<Longrightarrow>
   stdin_writes (trace (run s es)) = stdin_writes (trace s) @ message_payloads es"
proof (induction es arbitrary: s)
  case Nil
  then show ?case by simp
next
  case (Cons e es)
  from Cons.prems have e: "during_session c e" and es: "list_all (during_session c) es"
    by simp_all
  note st = step_during_session [OF e Cons.prems(2-5)]
  from st have "stdin_writes (trace (run (step s e) es)) =
      stdin_writes (trace (step s e)) @ message_payloads es"
    by (intro Cons.IH es) simp_all
  with st show ?case
    by (simp add: message_payloads_Cons [of e es])
qed

lemma step_stdin_writes:
  "\<exists>one. stdin_writes (trace (step s e)) = stdin_writes (trace s) @ one
         \<and> subseq one (message_payloads [e])"
proof (cases "enabled s e")
  case True
  then show ?thesis
    by (cases e) (simp_all add: step_def handle_stdin_writes del: handle.simps)
next
  case False
  then show ?thesis by (simp add: step_def)
qed

lemma run_stdin_writes:
  "\<exists>sub. stdin_writes (trace (run s es)) = stdin_writes (trace s) @ sub
         \<and> subseq sub (message_payloads es)"
proof (induction es arbitrary: s)
  case Nil
  then show ?case by simp
next
  case (Cons e es)
  obtain one where one: "stdin_writes (trace (step s e)) = stdin_writes (trace s) @ one"
      "subseq one (message_payloads [e])"
    using step_stdin_writes by blast
  obtain sub where sub: "stdin_writes (trace (run (step s e) es)) =
      stdin_writes (trace (step s e)) @ sub" "subseq sub (message_payloads es)"
    using Cons.IH by blast
  have "subseq (one @ sub) (message_payloads (e # es))"
    using one(2) sub(2) by (subst message_payloads_Cons) (rule list_emb_append_mono)
  with one(1) sub(1) show ?case
    by (intro exI [of _ "one @ sub"]) simp
qed

lemma writes_since_run: "subseq (writes_since s (run s es)) (message_payloads es)"
proof -
  obtain sub where sub: "stdin_writes (trace (run s es)) = stdin_writes (trace s) @ sub"
      "subseq sub (message_payloads es)"
    using run_stdin_writes by blast
  then show ?thesis by (simp add: writes_since_def)
qed

subsection \<open>The agent is killed only by shutdown\<close>

lemma step_killed_exited:
  "(killed s \<longrightarrow> exited s \<noteq> None) \<Longrightarrow> (killed (step s e) \<longrightarrow> exited (step s e) \<noteq> None)"
  by (cases e) (auto simp add: step_def handle_killed handle_exited simp del: handle.simps)

lemma run_killed_exited:
  "(killed s \<longrightarrow> exited s \<noteq> None) \<Longrightarrow> (killed (run s es) \<longrightarrow> exited (run s es) \<noteq> None)"
proof (induction es arbitrary: s)
  case Nil
  then show ?case by simp
next
  case (Cons e es)
  then show ?case using step_killed_exited [of s e] by simp
qed

lemma reachable_not_killed:
  "exited (run (WebSocketProxy options) es) = None \<Longrightarrow>
   \<not> killed (run (WebSocketProxy options) es)"
  using run_killed_exited [of "WebSocketProxy options" es]
  by (auto simp add: WebSocketProxy_def Let_def)

subsection \<open>Timers\<close>

lemma step_Tick_not_open:
  "exited s = None \<Longrightarrow> pingInterval s c = Some t \<Longrightarrow> t \<le> now s \<Longrightarrow>
   sockets s c \<noteq> Some OPEN \<Longrightarrow>
   step s (Tick c) =
     s\<lparr>pingInterval := (pingInterval s)(c := None), trace := trace s @ [ClearInterval c]\<rparr>"
  by (simp add: step_def on_interval_def rearm_def emit_def)

lemma step_keeps_timer:
  "pingInterval s c = Some t \<Longrightarrow> c < nextConn s \<Longrightarrow> e \<noteq> Tick c \<Longrightarrow>
   pingInterval (step s e) c = Some t"
  by (cases e) (auto simp add: step_def handle_pingInterval simp del: handle.simps)

lemma step_Close:
  "pingInterval (step s (Close c)) = pingInterval s
   \<and> trace (step s (Close c)) =
       trace s @ (if exited s = None \<and> live s c then [Log ClientDisconnected] else [])"
  by (simp add: step_def on_close_def socket_closed_def call_defs Let_def)

lemma no_timer_overdueD:
  "no_timer_overdue s dt \<Longrightarrow> c < nextConn s \<Longrightarrow> pingInterval s c = Some t \<Longrightarrow> now s + dt \<le> t"
  by (auto simp add: no_timer_overdue_def list_all_iff split: option.splits)

lemma step_timers_ok:
  assumes "timers_ok s"
  shows "timers_ok (step s e)"
proof (cases "enabled s e")
  case False
  with assms show ?thesis by (simp add: step_def)
next
  case True
  have sock: "c < nextConn (handle s e)" if "sockets (handle s e) c \<noteq> None" for c
  proof (cases "sockets s c = None")
    case False
    with assms have "c < nextConn s" by (simp add: timers_ok_def)
    then show ?thesis by (cases e) (simp_all add: handle_nextConn del: handle.simps)
  next
    case none: True
    have "c = nextConn s \<and> e = Connection"
    proof (rule ccontr)
      assume "\<not> (c = nextConn s \<and> e = Connection)"
      then have "e \<noteq> Connection \<or> c \<noteq> nextConn s" by blast
      from handle_sockets_None [OF none True this] that show False by simp
    qed
    then show ?thesis by (simp add: handle_nextConn del: handle.simps)
  qed
  have timer: "c < nextConn (handle s e) \<and> t \<le> now (handle s e) + ping_period"
    if "pingInterval (handle s e) c = Some t" for c t
  proof (cases e)
    case (Elapse dt)
    with that have "pingInterval s c = Some t"
      by (simp add: handle_pingInterval del: handle.simps)
    with assms have "c < nextConn s" "t \<le> now s + ping_period"
      by (simp_all add: timers_ok_def)
    then show ?thesis
      using Elapse by (simp add: handle_nextConn handle_now del: handle.simps)
  qed (use that assms in \<open>auto simp add: handle_pingInterval handle_nextConn handle_now
        timers_ok_def less_Suc_eq split: if_splits simp del: handle.simps\<close>)
  from sock timer have "timers_ok (handle s e)"
    unfolding timers_ok_def by blast
  with True show ?thesis by (simp add: step_def)
qed

lemma run_timers_ok: "timers_ok s \<Longrightarrow> timers_ok (run s es)"
  by (induction es arbitrary: s) (simp_all add: step_timers_ok)

lemma reachable_timers_ok: "timers_ok (run (WebSocketProxy options) es)"
  by (rule run_timers_ok) (simp add: timers_ok_def WebSocketProxy_def Let_def)

text \<open>A closed connection stays closed, gets no probe, and its timer is not armed again.\<close>

lemma step_closed:
  assumes "sockets s c = Some CLOSED" and "c < nextConn s"
  shows "sockets (step s e) c = Some CLOSED \<and> c < nextConn (step s e)
       \<and> pings c (trace (step s e)) = pings c (trace s)
       \<and> (pingInterval s c = None \<longrightarrow> pingInterval (step s e) c = None)"
proof (cases "enabled s e")
  case False
  with assms show ?thesis by (simp add: step_def)
next
  case True
  have "pings c (trace (handle s e)) = pings c (trace s)"
    using assms(1) by (cases e) (simp_all add: handle_pings del: handle.simps)
  moreover have "c < nextConn (handle s e)"
    using assms(2) by (cases e) (simp_all add: handle_nextConn del: handle.simps)
  moreover have "pingInterval (handle s e) c = None" if "pingInterval s c = None"
    using assms that
    by (cases e) (auto simp add: handle_pingInterval simp del: handle.simps)
  ultimately show ?thesis
    using True handle_sockets_CLOSED [OF assms True] by (simp add: step_def)
qed

lemma run_closed:
  "sockets s c = Some CLOSED \<Longrightarrow> c < nextConn s \<Longrightarrow>
   pings c (trace (run s es)) = pings c (trace s)
   \<and> (pingInterval s c = None \<longrightarrow> pingInterval (run s es) c = None)"
proof (induction es arbitrary: s)
  case Nil
  then show ?case by simp
next
  case (Cons e es)
  note st = step_closed [OF Cons.prems, of e]
  from st have "pings c (trace (run (step s e) es)) = pings c (trace (step s e))
      \<and> (pingInterval (step s e) c = None \<longrightarrow> pingInterval (run (step s e) es) c = None)"
    by (intro Cons.IH) simp_all
  with st show ?case by simp
qed

text \<open>With punctual timers the clock does not pass the time the timer of a closed
  connection is due while that timer is armed.\<close>

lemma step_closed_timer:
  assumes "closed_timer c b s" and "on_time s e"
  shows "closed_timer c b (step s e)"
proof (cases "enabled s e")
  case False
  with assms show ?thesis by (simp add: step_def)
next
  case True
  from assms have closed: "sockets s c = Some CLOSED" and known: "c < nextConn s"
    and due: "\<And>t. pingInterval s c = Some t \<Longrightarrow> t \<le> b \<and> now s \<le> b"
    by (simp_all add: closed_timer_def)
  have "t \<le> b \<and> now (handle s e) \<le> b" if "pingInterval (handle s e) c = Some t" for t
  proof (cases e)
    case (Elapse dt)
    with that have old: "pingInterval s c = Some t"
      by (simp add: handle_pingInterval del: handle.simps)
    moreover from Elapse assms(2) known old have "now s + dt \<le> t"
      by (intro no_timer_overdueD) simp_all
    ultimately show ?thesis
      using due [of t] Elapse by (simp add: handle_now del: handle.simps)
  next
    case Connection
    with that known due [of t] show ?thesis
      by (simp add: handle_pingInterval handle_now split: if_splits del: handle.simps)
  next
    case (Tick c')
    with that closed due [of t] show ?thesis
      by (simp add: handle_pingInterval handle_now split: if_splits del: handle.simps)
  qed (use that due [of t] in \<open>simp_all add: handle_pingInterval handle_now del: handle.simps\<close>)
  then show ?thesis
    using True step_closed [OF closed known, of e]
    by (auto simp add: step_def closed_timer_def split: option.split)
qed

lemma run_closed_timer:
  "closed_timer c b s \<Longrightarrow> punctual s es \<Longrightarrow> closed_timer c b (run s es)"
proof (induction es arbitrary: s)
  case Nil
  then show ?case by simp
next
  case (Cons e es)
  from Cons.prems have "closed_timer c b (step s e)" "punctual (step s e) es"
    by (simp_all add: step_closed_timer)
  then show ?case by (simp add: Cons.IH)
qed

section \<open>The claims\<close>

text \<open>
  C1. At every instant at most one session is Active: after every event, from any
  state, \<open>currentClient\<close> holds no session or exactly one; and in every state the proxy
  reaches from its construction, the session it holds is a connection of \<open>wss.clients\<close>.
\<close>

theorem at_most_one_active:
  "card (active_sessions (step s e)) \<le> 1
   \<and> card (active_sessions (run (WebSocketProxy options) es)) \<le> 1
   \<and> active_sessions (run (WebSocketProxy options) es)
       \<subseteq> set (clients (run (WebSocketProxy options) es))"
  using active_sessions_card [of "step s e"]
    active_sessions_card [of "run (WebSocketProxy options) es"]
    run_active_clients [OF init_active_clients, of options es]
  by blast

text \<open>
  C2. A disconnect of connection \<open>ws\<close> sets the Active session to none when \<open>ws\<close> is the
  Active session and leaves it as it is otherwise. So once a new peer has been
  installed, no later event but its own disconnect or a further connection changes the
  Active session: in particular the delayed disconnect of a session evicted earlier
  does not clear it.
\<close>

theorem stale_disconnect_keeps_active:
  assumes "exited s = None" and "Connection \<notin> set es" and "Close (nextConn s) \<notin> set es"
  shows "currentClient (on_close s ws) =
           (if currentClient s = Some ws then None else currentClient s)
       \<and> currentClient (handle s (Close ws)) =
           (if currentClient s = Some ws then None else currentClient s)
       \<and> currentClient (run (step s Connection) es) = Some (nextConn s)"
proof -
  have "currentClient (on_close s ws) =
      (if currentClient s = Some ws then None else currentClient s)"
    by (simp add: on_close_def log_def emit_def)
  moreover have "currentClient (handle s (Close ws)) =
      (if currentClient s = Some ws then None else currentClient s)"
    by (simp add: handle_currentClient del: handle.simps)
  moreover have "currentClient (run (step s Connection) es) = Some (nextConn s)"
    using assms by (intro run_keeps_current step_Connection_current)
  ultimately show ?thesis by blast
qed

theorem stale_disconnect_keeps_active_witness:
  "exited (run (WebSocketProxy default_options) [Connection]) = None
   \<and> nextConn (run (WebSocketProxy default_options) [Connection]) = 1
   \<and> currentClient (run (WebSocketProxy default_options) [Connection, Connection, Close 0]) = Some 1"
  using stale_disconnect_keeps_active [of "step (WebSocketProxy default_options) Connection" "[Close 0]" 0]
  by (simp add: eval_defs)

text \<open>
  C3. When a peer connects while session \<open>old\<close> is Active, the callback first closes the
  connection of \<open>old\<close> (the close is the last call made while \<open>currentClient\<close> still
  holds \<open>old\<close>), then installs the new connection, which is then the only Active
  session. The next chunk of agent output goes to the new connection, and until a
  further connection every chunk that is sent to anyone is sent to it.
\<close>

theorem eviction_on_connect:
  assumes "exited s = None" and "currentClient s = Some old" and "old < nextConn s"
    and "Connection \<notin> set es"
  shows "trace (close_existing (accept s)) =
           trace s @ [Log ClientConnected, Log ClosingExisting, WsClose old]
       \<and> currentClient (close_existing (accept s)) = Some old
       \<and> step s Connection =
           set_interval ((close_existing (accept s))\<lparr>currentClient := Some (nextConn s)\<rparr>)
             (nextConn s)
       \<and> sockets (step s Connection) old \<noteq> Some OPEN
       \<and> active_sessions (step s Connection) = {nextConn s}
       \<and> sends_since (step s Connection) (step (step s Connection) (AgentStdout d))
           = [(nextConn s, d)]
       \<and> fst ` set (sends_since (step s Connection) (run (step s Connection) es))
           \<subseteq> {nextConn s}"
proof -
  let ?s' = "step s Connection"
  have acc: "currentClient (accept s) = Some old" "trace (accept s) = trace s"
    using assms(2) by (simp_all add: accept_def)
  have pre: "trace (close_existing (accept s)) =
      trace s @ [Log ClientConnected, Log ClosingExisting, WsClose old]"
    "currentClient (close_existing (accept s)) = Some old"
    by (simp_all add: close_existing_Some [OF acc(1)] acc)
  have st: "?s' = set_interval ((close_existing (accept s))\<lparr>currentClient := Some (nextConn s)\<rparr>)
      (nextConn s)"
    using assms(1) by (rule step_Connection)
  have cur: "currentClient ?s' = Some (nextConn s)"
    using assms(1) by (rule step_Connection_current)
  have old: "sockets ?s' old \<noteq> Some OPEN"
    by (simp add: st close_existing_Some [OF acc(1)] set_interval_def emit_def)
  have new: "sockets ?s' (nextConn s) = Some OPEN"
    unfolding st close_existing_Some [OF acc(1)]
    using assms(3) assms(2) by (simp add: set_interval_def emit_def accept_def)
  have ex: "exited ?s' = None"
    using assms(1) by (simp add: step_def handle_exited del: handle.simps)
  have one: "sends_since ?s' (step ?s' (AgentStdout d)) = [(nextConn s, d)]"
    by (simp add: sends_since_def step_ws_sends cur new ex)
  have sole: "fst ` set (sends_since ?s' (run ?s' es)) \<subseteq> {nextConn s}"
    using assms(4) cur by (intro sends_since_run(2)) simp_all
  have act: "active_sessions ?s' = {nextConn s}"
    by (simp add: active_sessions_def cur)
  from pre st old act one sole show ?thesis by blast
qed

theorem eviction_on_connect_witness:
  "exited (run (WebSocketProxy default_options) [Connection]) = None
   \<and> currentClient (run (WebSocketProxy default_options) [Connection]) = Some 0
   \<and> trace (close_existing (accept (run (WebSocketProxy default_options) [Connection])))
       = trace (run (WebSocketProxy default_options) [Connection]) @ [Log ClientConnected, Log ClosingExisting, WsClose 0]
   \<and> active_sessions (run (WebSocketProxy default_options) [Connection, Connection]) = {1}
   \<and> sends_since (run (WebSocketProxy default_options) [Connection, Connection])
        (run (WebSocketProxy default_options) [Connection, Connection, AgentStdout ''P3''])
       = [(1, ''P3'')]"
  using eviction_on_connect [of "run (WebSocketProxy default_options) [Connection]" 0 "[AgentStdout ''P3'']" "''P3''"]
  by (simp add: eval_defs sends_since_def active_sessions_def)

text \<open>
  C4. The message callback writes the payload, unchanged, to the agent's stdin exactly
  when stdin exists and is writable; otherwise it logs the warning and nothing else
  changes, so the payload is neither kept nor retried: whatever is written to stdin
  later comes, in order and at most once each, from the messages delivered later.
  While the session of a peer goes on and stdin stays writable, stdin receives exactly
  the payloads of the peer's messages, in their order.
\<close>

theorem inbound_forwarding:
  assumes "exited s = None" and "stdin_exists s" and "stdin_writable s" and "live s c"
    and "list_all (during_session c) es"
  shows "on_message s' ws d =
           s'\<lparr>trace := trace s' @
              [Log (ClientToAgent d),
               if stdin_exists s' \<and> stdin_writable s' then StdinWrite d
               else Log StdinNotWritable]\<rparr>
       \<and> writes_since s' (on_message s' ws d) =
           (if stdin_exists s' \<and> stdin_writable s' then [d] else [])
       \<and> subseq (writes_since s' (run s' es')) (message_payloads es')
       \<and> writes_since s (run s es) = message_payloads es"
proof -
  have "writes_since s' (on_message s' ws d) =
      (if stdin_exists s' \<and> stdin_writable s' then [d] else [])"
    by (simp add: on_message_eq writes_since_def stdin_writes_append)
  moreover have "writes_since s (run s es) = message_payloads es"
    using run_during_session [OF assms(5,1,2,3,4)] by (simp add: writes_since_def)
  ultimately show ?thesis
    using on_message_eq [of s' ws d] writes_since_run [of s' es'] by blast
qed

theorem inbound_forwarding_witness:
  "exited (run (WebSocketProxy default_options) [Connection]) = None
   \<and> live (run (WebSocketProxy default_options) [Connection]) 0
   \<and> list_all (during_session 0)
       [Message 0 ''ab'', AgentStdout ''x'', Connection, Message 0 ''cd'', Close 1]
   \<and> writes_since (run (WebSocketProxy default_options) [Connection])
       (run (run (WebSocketProxy default_options) [Connection])
          [Message 0 ''ab'', AgentStdout ''x'', Connection, Message 0 ''cd'', Close 1])
     = [''ab'', ''cd'']"
  using inbound_forwarding
    [of "run (WebSocketProxy default_options) [Connection]" 0
        "[Message 0 ''ab'', AgentStdout ''x'', Connection, Message 0 ''cd'', Close 1]"]
  by (simp add: eval_defs)

text \<open>
  C5. Every chunk of agent output that arrives while the proxy runs is handled by the
  output callback, which sends the chunk, unchanged, to the Active session when there
  is one and its connection is open; otherwise it logs that there is no client and
  nothing else changes. So a chunk is sent to the session that is Active when it
  arrives, and to no other peer; what a run sends is exactly, chunk by chunk and in
  order, what goes to the session Active at each chunk's arrival: no chunk is held
  back and sent after a change of peer.
\<close>

theorem outbound_forwarding:
  "on_stdout_data s d =
     s\<lparr>trace := trace s @
        [Log (AgentToClient d),
         case currentClient s of
           None \<Rightarrow> Log NoActiveClient
         | Some c \<Rightarrow> if sockets s c = Some OPEN then WsSend c d else Log NoActiveClient]\<rparr>
   \<and> sends_since s (on_stdout_data s d) =
       (case currentClient s of
          None \<Rightarrow> []
        | Some c \<Rightarrow> if sockets s c = Some OPEN then [(c, d)] else [])
   \<and> (exited s = None \<longrightarrow> step s (AgentStdout d) = on_stdout_data s d)
   \<and> sends_since s (step s (AgentStdout d)) =
       (case currentClient s of
          None \<Rightarrow> []
        | Some c \<Rightarrow> if exited s = None \<and> sockets s c = Some OPEN then [(c, d)] else [])
   \<and> length (sends_since s (step s e)) \<le> 1
   \<and> subseq (map snd (sends_since s (run s es))) (stdout_chunks es)
   \<and> sends_since s (run s es) = forwarded s es"
proof -
  have "sends_since s (on_stdout_data s d) =
      (case currentClient s of
         None \<Rightarrow> []
       | Some c \<Rightarrow> if sockets s c = Some OPEN then [(c, d)] else [])"
    by (simp add: on_stdout_data_eq sends_since_def ws_sends_append split: option.split)
  moreover have "length (sends_since s (step s e)) \<le> 1"
    by (cases e) (simp_all add: sends_since_def step_ws_sends split: option.split)
  moreover have "sends_since s (step s (AgentStdout d)) =
      (case currentClient s of
         None \<Rightarrow> []
       | Some c \<Rightarrow> if exited s = None \<and> sockets s c = Some OPEN then [(c, d)] else [])"
    by (simp add: sends_since_def step_ws_sends)
  moreover have "exited s = None \<longrightarrow> step s (AgentStdout d) = on_stdout_data s d"
    by (simp add: step_AgentStdout)
  ultimately show ?thesis
    using on_stdout_data_eq [of s d] sends_since_run(1) [of s es] sends_since_forwarded [of s es]
    by blast
qed

theorem outbound_forwarding_witness:
  "exited (run (WebSocketProxy default_options) [Connection, Connection]) = None
   \<and> currentClient (run (WebSocketProxy default_options) [Connection, Connection]) = Some 1
   \<and> drop 10 (trace (step (run (WebSocketProxy default_options) [Connection, Connection])
        (AgentStdout ''P3'')))
     = [Log (AgentToClient ''P3''), WsSend 1 ''P3'']
   \<and> sends_since (run (WebSocketProxy default_options) [Connection])
        (run (run (WebSocketProxy default_options) [Connection])
           [AgentStdout ''P2'', Connection, AgentStdout ''P3'', Close 1, AgentStdout ''P4''])
     = [(0, ''P2''), (1, ''P3'')]"
  using outbound_forwarding
    [of "run (WebSocketProxy default_options) [Connection, Connection]" "''P3''"]
    outbound_forwarding
    [where s = "run (WebSocketProxy default_options) [Connection]"
       and es = "[AgentStdout ''P2'', Connection, AgentStdout ''P3'', Close 1, AgentStdout ''P4'']"]
  by (simp add: eval_defs)

text \<open>
  C6. When the agent exits with code \<open>n\<close> the proxy calls \<open>process.exit\<close> with \<open>n\<close>, and
  when the agent reports an error it calls \<open>process.exit\<close> with 1; that call is the last
  thing the proxy does, and the code stays what it is whatever comes after.
\<close>

theorem exit_code_propagation:
  assumes "exited s = None" and "agent_running s"
  shows "exited (on_agent_exit s' (Some n)) = Some n
       \<and> exited (on_agent_error s') = Some 1
       \<and> exited (step s (AgentExit (Some n))) = Some n
       \<and> last (trace (step s (AgentExit (Some n)))) = ProcessExit n
       \<and> exited (step s AgentError) = Some 1
       \<and> last (trace (step s AgentError)) = ProcessExit 1
       \<and> exited (run (step s (AgentExit (Some n))) es) = Some n
       \<and> exited (run (step s AgentError) es) = Some 1"
proof -
  have a: "exited (step s (AgentExit (Some n))) = Some n"
    and b: "exited (step s AgentError) = Some 1"
    using assms by (simp_all add: step_def on_agent_exit_def on_agent_error_def)
  from a have "exited (run (step s (AgentExit (Some n))) es) = Some n"
    by (simp add: run_exited)
  moreover from b have "exited (run (step s AgentError) es) = Some 1"
    by (simp add: run_exited)
  moreover have "last (trace (step s (AgentExit (Some n)))) = ProcessExit n"
    "last (trace (step s AgentError)) = ProcessExit 1"
    using assms by (simp_all add: step_def on_agent_exit_def on_agent_error_def)
  moreover have "exited (on_agent_exit s' (Some n)) = Some n"
    "exited (on_agent_error s') = Some 1"
    by (simp_all add: on_agent_exit_def on_agent_error_def)
  ultimately show ?thesis using a b by blast
qed

theorem exit_code_propagation_witness:
  "exited (run (WebSocketProxy default_options) [Connection]) = None
   \<and> agent_running (run (WebSocketProxy default_options) [Connection])
   \<and> exited (run (WebSocketProxy default_options) [Connection, AgentExit (Some 3), AgentError, Signal SIGINT]) = Some 3
   \<and> exited (run (WebSocketProxy default_options) [Connection, AgentExit (Some 0)]) = Some 0
   \<and> exited (run (WebSocketProxy default_options) [Connection, AgentError, AgentExit (Some 3)]) = Some 1"
  using exit_code_propagation [of "run (WebSocketProxy default_options) [Connection]" _ 3 "[AgentError, Signal SIGINT]"]
    exit_code_propagation [of "run (WebSocketProxy default_options) [Connection]" _ 0 "[]"]
    exit_code_propagation [of "run (WebSocketProxy default_options) [Connection]" _ 3 "[AgentExit (Some 3)]"]
  by (simp add: eval_defs)

text \<open>
  C7. On SIGINT or SIGTERM the proxy shuts down with code 0: it closes every connection
  of \<open>wss.clients\<close>, the Active one or not, so that none of them stays open, closes the
  server, kills the agent unless \<open>agent.killed\<close> is set, and exits with code 0. In every
  state the proxy reaches \<open>agent.killed\<close> is not set, so the agent is killed.
\<close>

theorem signal_shutdown:
  assumes "exited s = None"
  shows "trace (step s (Signal sg)) =
           trace s @ [ConsoleLog (ReceivedSignal sg), Log ShuttingDown]
             @ map WsClose (clients s) @ [ServerClose]
             @ (if killed s then [] else [AgentKill]) @ [ProcessExit 0]
       \<and> exited (step s (Signal sg)) = Some 0
       \<and> (\<forall>c \<in> set (clients s). sockets (step s (Signal sg)) c \<noteq> Some OPEN)
       \<and> (exited (run (WebSocketProxy options) es) = None \<longrightarrow>
            AgentKill \<in> set (trace (step (run (WebSocketProxy options) es) (Signal sg)))
            \<and> exited (step (run (WebSocketProxy options) es) (Signal sg)) = Some 0)"
proof -
  have st: "step s (Signal sg) = shutdown (emit s (ConsoleLog (ReceivedSignal sg))) 0"
    if "exited s = None" for s
    using that by (simp add: step_def on_signal_def)
  have tr: "trace (step s (Signal sg)) =
      trace s @ [ConsoleLog (ReceivedSignal sg), Log ShuttingDown]
        @ map WsClose (clients s) @ [ServerClose]
        @ (if killed s then [] else [AgentKill]) @ [ProcessExit 0]"
    if "exited s = None" for s
    by (simp add: st [OF that] shutdown_trace emit_def)
  have "\<forall>c \<in> set (clients s). sockets (step s (Signal sg)) c \<noteq> Some OPEN"
    by (simp add: st [OF assms] shutdown_sockets_OPEN emit_def)
  moreover have "exited (step s (Signal sg)) = Some 0"
    by (simp add: st [OF assms])
  moreover have "AgentKill \<in> set (trace (step (run (WebSocketProxy options) es) (Signal sg)))
      \<and> exited (step (run (WebSocketProxy options) es) (Signal sg)) = Some 0"
    if "exited (run (WebSocketProxy options) es) = None"
  proof
    show "AgentKill \<in> set (trace (step (run (WebSocketProxy options) es) (Signal sg)))"
      using reachable_not_killed [OF that] by (simp add: tr [OF that])
    show "exited (step (run (WebSocketProxy options) es) (Signal sg)) = Some 0"
      by (simp add: st [OF that])
  qed
  ultimately show ?thesis using tr [OF assms] by blast
qed

theorem signal_shutdown_witness:
  "exited (run (WebSocketProxy default_options) [Connection, Connection]) = None
   \<and> clients (run (WebSocketProxy default_options) [Connection, Connection]) = [0, 1]
   \<and> currentClient (run (WebSocketProxy default_options) [Connection, Connection]) = Some 1
   \<and> drop 10 (trace (run (WebSocketProxy default_options) [Connection, Connection, Signal SIGTERM]))
     = [ConsoleLog (ReceivedSignal SIGTERM), Log ShuttingDown, WsClose 0, WsClose 1,
        ServerClose, AgentKill, ProcessExit 0]
   \<and> exited (run (WebSocketProxy default_options) [Connection, Connection, Signal SIGTERM]) = Some 0"
  using signal_shutdown
    [of "run (WebSocketProxy default_options) [Connection, Connection]" SIGTERM
        default_options "[Connection, Connection]"]
  by (simp add: eval_defs)

text \<open>
  C8, as the code has it. With one connection made and then disconnected, the timer of
  that connection is still armed and no \<open>clearInterval\<close> has been called: the disconnect
  does not cancel the timer.
\<close>

theorem timer_survives_disconnect:
  "sockets (run (WebSocketProxy default_options) [Connection, Close 0]) 0 = Some CLOSED
   \<and> pingInterval (run (WebSocketProxy default_options) [Connection, Close 0]) 0 = Some 30000
   \<and> ClearInterval 0 \<notin> set (trace (run (WebSocketProxy default_options) [Connection, Close 0]))"
  by (simp add: eval_defs)

text \<open>
  C8, amended. The disconnect event does not cancel the liveness timer of the session:
  the close callback only logs and clears \<open>currentClient\<close>, and the timer stays armed,
  due at the same time, through every event but its own firing. It is cancelled by the
  open-check of its callback, when the timer fires and finds the connection not open.
\<close>

theorem timer_cancelled_by_open_check:
  assumes "exited s = None" and "pingInterval s c = Some t" and "c < nextConn s"
  shows "pingInterval (step s (Close c')) = pingInterval s
       \<and> trace (step s (Close c')) =
           trace s @ (if live s c' then [Log ClientDisconnected] else [])
       \<and> (e \<noteq> Tick c \<longrightarrow> pingInterval (step s e) c = Some t)
       \<and> (sockets s c \<noteq> Some OPEN \<longrightarrow> t \<le> now s \<longrightarrow>
            step s (Tick c) =
              s\<lparr>pingInterval := (pingInterval s)(c := None),
                trace := trace s @ [ClearInterval c]\<rparr>)"
  using assms step_Close [of s c'] step_keeps_timer [of s c t e]
    step_Tick_not_open [of s c t]
  by simp

theorem timer_cancelled_by_open_check_witness:
  "exited (run (WebSocketProxy default_options) [Connection, Close 0, Elapse 30000]) = None
   \<and> pingInterval (run (WebSocketProxy default_options) [Connection, Close 0, Elapse 30000]) 0 = Some 30000
   \<and> now (run (WebSocketProxy default_options) [Connection, Close 0, Elapse 30000]) = 30000
   \<and> pingInterval (run (WebSocketProxy default_options) [Connection, Close 0, Elapse 30000, Tick 0]) 0 = None
   \<and> drop 7 (trace (run (WebSocketProxy default_options) [Connection, Close 0, Elapse 30000, Tick 0])) = [ClearInterval 0]"
  using timer_cancelled_by_open_check
    [of "run (WebSocketProxy default_options) [Connection, Close 0, Elapse 30000]" 0 30000 0 "Close 0"]
  by (simp add: eval_defs)

text \<open>
  C9. The timer callback sends a probe only when the connection is open. So in every
  state the proxy reaches in which a connection is closed, no probe is sent to that
  connection any more, whatever happens next; the first firing of its timer cancels
  the timer, and a cancelled timer is not armed again. With punctual timers, once more
  than one probe interval has passed the timer is cancelled.
\<close>

theorem no_probe_after_close:
  assumes "s = run (WebSocketProxy options) es0" and "sockets s c = Some CLOSED"
    and "punctual s es'"
  shows "pings c (trace (on_interval s' c)) =
           pings c (trace s') + (if sockets s' c = Some OPEN then 1 else 0)
       \<and> pings c (trace (run s es)) = pings c (trace s)
       \<and> (enabled s (Tick c) \<longrightarrow>
            step s (Tick c) =
              s\<lparr>pingInterval := (pingInterval s)(c := None),
                trace := trace s @ [ClearInterval c]\<rparr>)
       \<and> (pingInterval s c = None \<longrightarrow> pingInterval (run s es) c = None)
       \<and> (now s + ping_period < now (run s es') \<longrightarrow> pingInterval (run s es') c = None)"
proof -
  have ok: "timers_ok s"
    unfolding assms(1) by (rule reachable_timers_ok)
  with assms(2) have known: "c < nextConn s"
    by (simp add: timers_ok_def)
  have "closed_timer c (now s + ping_period) s"
    using ok assms(2) known
    by (auto simp add: closed_timer_def timers_ok_def split: option.split)
  from run_closed_timer [OF this assms(3)]
  have late: "pingInterval (run s es') c = None" if "now s + ping_period < now (run s es')"
    using that by (auto simp add: closed_timer_def split: option.splits)
  have "pings c (trace (on_interval s' c)) =
      pings c (trace s') + (if sockets s' c = Some OPEN then 1 else 0)"
    by (simp add: on_interval_def emit_def pings_append)
  moreover have "step s (Tick c) =
      s\<lparr>pingInterval := (pingInterval s)(c := None), trace := trace s @ [ClearInterval c]\<rparr>"
    if "enabled s (Tick c)"
  proof -
    from that obtain t where "exited s = None" "pingInterval s c = Some t" "t \<le> now s"
      by (auto split: option.splits)
    then show ?thesis
      using assms(2) by (intro step_Tick_not_open) simp_all
  qed
  ultimately show ?thesis
    using run_closed [OF assms(2) known, of es] late by blast
qed

theorem no_probe_after_close_witness:
  "sockets (run (WebSocketProxy default_options) [Connection, Elapse 30000, Tick 0, Close 0]) 0 = Some CLOSED
   \<and> punctual (run (WebSocketProxy default_options) [Connection, Elapse 30000, Tick 0, Close 0])
       [Elapse 30000, Tick 0, Connection, Elapse 30000, Tick 0, Tick 1]
   \<and> pings 0 (trace (run (WebSocketProxy default_options) [Connection, Elapse 30000, Tick 0, Close 0])) = 1
   \<and> pings 0 (trace (run (run (WebSocketProxy default_options) [Connection, Elapse 30000, Tick 0, Close 0])
        [Elapse 30000, Tick 0, Connection, Elapse 30000, Tick 0, Tick 1])) = 1
   \<and> now (run (WebSocketProxy default_options) [Connection, Elapse 30000, Tick 0, Close 0]) = 30000
   \<and> now (run (run (WebSocketProxy default_options) [Connection, Elapse 30000, Tick 0, Close 0])
        [Elapse 30000, Tick 0, Connection, Elapse 30000, Tick 0, Tick 1]) = 90000
   \<and> pingInterval (run (run (WebSocketProxy default_options) [Connection, Elapse 30000, Tick 0, Close 0])
        [Elapse 30000, Tick 0, Connection, Elapse 30000, Tick 0, Tick 1]) 0 = None"
  using no_probe_after_close
    [where s = "run (WebSocketProxy default_options) [Connection, Elapse 30000, Tick 0, Close 0]"
       and options = default_options
       and ?es0.0 = "[Connection, Elapse 30000, Tick 0, Close 0]"
       and c = 0 and es = "[Elapse 30000, Tick 0, Connection, Elapse 30000, Tick 0, Tick 1]"
       and es' = "[Elapse 30000, Tick 0, Connection, Elapse 30000, Tick 0, Tick 1]"]
  by (simp add: eval_defs)

text \<open>
  C10. When the exit event of the agent carries no code (\<open>null\<close>), the proxy shuts down
  with code 0: \<open>process.exit\<close> is called with 0, as the last thing the proxy does.
\<close>

theorem null_exit_code:
  assumes "exited s = None" and "agent_running s"
  shows "exited (on_agent_exit s' None) = Some 0
       \<and> last (trace (on_agent_exit s' None)) = ProcessExit 0
       \<and> exited (step s (AgentExit None)) = Some 0
       \<and> last (trace (step s (AgentExit None))) = ProcessExit 0
       \<and> exited (run (step s (AgentExit None)) es) = Some 0"
proof -
  have a: "exited (step s (AgentExit None)) = Some 0"
    using assms by (simp add: step_def on_agent_exit_def)
  then have "exited (run (step s (AgentExit None)) es) = Some 0"
    by (simp add: run_exited)
  moreover have "last (trace (step s (AgentExit None))) = ProcessExit 0"
    using assms by (simp add: step_def on_agent_exit_def)
  moreover have "exited (on_agent_exit s' None) = Some 0"
    "last (trace (on_agent_exit s' None)) = ProcessExit 0"
    by (simp_all add: on_agent_exit_def)
  ultimately show ?thesis using a by blast
qed

theorem null_exit_code_witness:
  "exited (WebSocketProxy default_options) = None
   \<and> agent_running (WebSocketProxy default_options)
   \<and> exited (run (WebSocketProxy default_options) [AgentExit None]) = Some 0
   \<and> last (trace (run (WebSocketProxy default_options) [AgentExit None])) = ProcessExit 0"
  using null_exit_code [of "WebSocketProxy default_options" _ "[]"]
  by (simp add: eval_defs)

end
